theory Spec2Isabelle
  imports Main "HOL-Library.Finite_Map"
begin

section \<open>The Deepgram transcription service of simplemeeting\<close>

text \<open>
  A shallow embedding of the class \<open>DeepgramService\<close> of \<^verbatim>\<open>src/utils/deepgram.js\<close>.
  Methods take the service object and return it updated. What a method does to the
  outside (an emitted event, a timer, closing the socket) is returned as a value.
  A \<^verbatim>\<open>throw\<close> is the left summand of the result.
\<close>

subsection \<open>JavaScript values and their conversion to text\<close>

text \<open>
  The variable \<^verbatim>\<open>currentSpeaker\<close> of the batch loop holds \<^verbatim>\<open>null\<close> or a number, and a
  speaker id is a number. Speaker ids are integers; numbers that are not integers are
  outside this model.
\<close>

datatype jsval = JNull | JNum int

text \<open>
  Decimal rendering of a number, as a template literal and a property access do it.
\<close>

definition digit :: "nat \<Rightarrow> char" where
  "digit d = ''0123456789'' ! d"

fun natToString :: "nat \<Rightarrow> string" where
  "natToString n =
     (if n < 10 then [digit n] else natToString (n div 10) @ [digit (n mod 10)])"

declare natToString.simps [simp del]

definition numberToString :: "int \<Rightarrow> string" where
  "numberToString i =
     (if i < 0 then CHR ''-'' # natToString (nat (- i)) else natToString (nat i))"

text \<open>
  \<^verbatim>\<open>this.speakerMap[speakerId]\<close> converts the id to a property key, a string.
\<close>

fun toPropertyKey :: "jsval \<Rightarrow> string" where
  "toPropertyKey JNull = ''null''"
| "toPropertyKey (JNum i) = numberToString i"

subsection \<open>The service object\<close>

text \<open>
  The fields set by the constructor. The socket is a handle, a listener is the identity
  of a callback. \<^verbatim>\<open>speakerMap\<close> is a plain object with string keys: a finite map.
\<close>

record service =
  apiKey :: string
  socket :: "nat option"
  listeners :: "(string, nat list) fmap"
  isConnected :: bool
  reconnectAttempts :: nat
  maxReconnectAttempts :: nat
  speakerMap :: "(string, string) fmap"

definition constructor :: "string \<Rightarrow> service" where
  "constructor key =
     \<lparr> apiKey = key, socket = None, listeners = fmempty, isConnected = False,
       reconnectAttempts = 0, maxReconnectAttempts = 3, speakerMap = fmempty \<rparr>"

subsection \<open>getSpeakerLabel\<close>

definition labels :: "string list" where
  "labels = [''A'', ''B'', ''C'', ''D'', ''E'', ''F'', ''G'', ''H'', ''I'', ''J'']"

text \<open>
  \<^verbatim>\<open>`Speaker ${labels[index] || index}`\<close>: an index past the end of \<^verbatim>\<open>labels\<close> reads
  \<^verbatim>\<open>undefined\<close>, and the number itself is rendered. Every letter is a non-empty
  string, so \<^verbatim>\<open>||\<close> never falls through inside the range.
\<close>

definition newLabel :: "nat \<Rightarrow> string" where
  "newLabel index =
     ''Speaker '' @ (if index < length labels then labels ! index else natToString index)"

text \<open>
  \<^verbatim>\<open>if (!this.speakerMap[speakerId]) { ... }\<close> tests the stored value for truth: a
  missing key and an empty string both take the branch. \<^verbatim>\<open>Object.keys(..).length\<close>
  is the number of keys. The method returns the value stored under the key, which in
  the branch is the label just written.
\<close>

definition getSpeakerLabel :: "service \<Rightarrow> jsval \<Rightarrow> string \<times> service" where
  "getSpeakerLabel s speakerId =
     (let key = toPropertyKey speakerId;
          assign = (let index = fcard (fmdom (speakerMap s));
                        l = newLabel index
                    in (l, s\<lparr>speakerMap := fmupd key l (speakerMap s)\<rparr>))
      in case fmlookup (speakerMap s) key of
           None \<Rightarrow> assign
         | Some l \<Rightarrow> if l = [] then assign else (l, s))"

subsection \<open>The documents Deepgram sends\<close>

text \<open>
  The typed view of a parsed JSON document. A field the code guards with \<^verbatim>\<open>?.\<close>,
  \<^verbatim>\<open>??\<close>, \<^verbatim>\<open>||\<close> or a truth test is optional, and \<open>None\<close> stands for a field that is
  missing or \<^verbatim>\<open>null\<close>. The confidence is only passed on, never computed with.
\<close>

record dg_word =
  word :: string
  punctuated_word :: "string option"
  speaker :: "int option"

record dg_alternative =
  transcript :: "string option"
  confidence :: "rat option"
  words :: "dg_word list option"

record dg_channel =
  alternatives :: "dg_alternative list option"

text \<open>A streaming message; \<open>msg_type\<close> is its field \<^verbatim>\<open>type\<close>.\<close>

record dg_message =
  msg_type :: "string option"
  channel :: "dg_channel option"
  is_final :: "bool option"

text \<open>The body of a batch response.\<close>

record dg_results =
  channels :: "dg_channel list option"

record dg_data =
  results :: "dg_results option"

text \<open>
  What \<^verbatim>\<open>fetch\<close> resolves to: \<^verbatim>\<open>res.ok\<close>, \<^verbatim>\<open>res.status\<close>, and the body as \<^verbatim>\<open>res.text()\<close>
  and \<^verbatim>\<open>res.json()\<close> read it; \<open>res_json\<close> is \<open>None\<close> when the body is not JSON and
  \<^verbatim>\<open>res.json()\<close> rejects.
\<close>

record response =
  ok :: bool
  status :: nat
  res_text :: string
  res_json :: "dg_data option"

datatype error = Error string | SyntaxError

text \<open>The object handed to \<^verbatim>\<open>this.emit('transcript', ...)\<close>.\<close>

record transcript_event =
  ev_text :: string
  ev_speaker :: string
  ev_speakerId :: jsval
  ev_confidence :: "rat option"
  ev_timestamp :: nat
  ev_is_final :: bool

subsection \<open>handleMessage\<close>

text \<open>\<^verbatim>\<open>c?.alternatives?.[0]\<close>: \<^verbatim>\<open>undefined\<close> when a link is missing or the array is empty.\<close>

definition firstAlternative :: "dg_channel option \<Rightarrow> dg_alternative option" where
  "firstAlternative c =
     (case c of
        None \<Rightarrow> None
      | Some ch \<Rightarrow>
          (case alternatives ch of
             None \<Rightarrow> None
           | Some [] \<Rightarrow> None
           | Some (a # _) \<Rightarrow> Some a))"

text \<open>\<^verbatim>\<open>w.speaker ?? 0\<close>.\<close>

definition wordSpeaker :: "dg_word \<Rightarrow> jsval" where
  "wordSpeaker w = (case speaker w of None \<Rightarrow> JNum 0 | Some i \<Rightarrow> JNum i)"

text \<open>\<^verbatim>\<open>words[0]?.speaker ?? 0\<close>.\<close>

definition firstSpeaker :: "dg_word list \<Rightarrow> jsval" where
  "firstSpeaker ws = (case ws of [] \<Rightarrow> JNum 0 | w # _ \<Rightarrow> wordSpeaker w)"

text \<open>
  \<open>JSON_parse\<close> is \<^verbatim>\<open>JSON.parse\<close> followed by the typed view; \<open>None\<close> is a payload on
  which the \<^verbatim>\<open>try\<close> block throws before any field is tested (a syntax error, or the
  document \<^verbatim>\<open>null\<close>), which the \<^verbatim>\<open>catch\<close> logs. \<open>now\<close> is \<^verbatim>\<open>Date.now()\<close>. The result lists
  the calls of \<^verbatim>\<open>this.emit\<close>, event name and payload. Logging is not modelled.
\<close>

definition handleMessage ::
  "(string \<Rightarrow> dg_message option) \<Rightarrow> nat \<Rightarrow> service \<Rightarrow> string
     \<Rightarrow> (string \<times> transcript_event) list \<times> service" where
  "handleMessage JSON_parse now s data =
     (case JSON_parse data of
        None \<Rightarrow> ([], s)
      | Some parsed \<Rightarrow>
          if msg_type parsed = Some ''Metadata'' then ([], s)
          else
            (case firstAlternative (channel parsed) of
               None \<Rightarrow> ([], s)
             | Some alternative \<Rightarrow>
                 (case transcript alternative of
                    None \<Rightarrow> ([], s)
                  | Some t \<Rightarrow>
                      if t \<noteq> [] \<and> is_final parsed = Some True then
                        (let ws = (case words alternative of None \<Rightarrow> [] | Some l \<Rightarrow> l);
                             speakerId = firstSpeaker ws;
                             (speakerLabel, s') = getSpeakerLabel s speakerId
                         in ([(''transcript'',
                               \<lparr> ev_text = t, ev_speaker = speakerLabel,
                                 ev_speakerId = speakerId,
                                 ev_confidence = confidence alternative,
                                 ev_timestamp = now, ev_is_final = True \<rparr>)], s'))
                      else ([], s))))"

subsection \<open>The connection\<close>

text \<open>\<^verbatim>\<open>connect\<close> stores the new socket; \<open>h\<close> is its handle.\<close>

definition connect :: "service \<Rightarrow> nat \<Rightarrow> service" where
  "connect s h = s\<lparr>socket := Some h\<rparr>"

definition onopen :: "service \<Rightarrow> service" where
  "onopen s = s\<lparr>isConnected := True, reconnectAttempts := 0\<rparr>"

text \<open>
  \<open>attemptReconnect\<close> returns the delays of the timers it sets; the timer's callback
  calls \<^verbatim>\<open>connect\<close>. The delay is computed after the increment.
\<close>

definition attemptReconnect :: "service \<Rightarrow> nat list \<times> service" where
  "attemptReconnect s =
     (let s' = s\<lparr>reconnectAttempts := reconnectAttempts s + 1\<rparr>
      in ([2000 * reconnectAttempts s'], s'))"

text \<open>The handler of the socket's close event; \<open>code\<close> is \<^verbatim>\<open>event.code\<close>.\<close>

definition onclose :: "service \<Rightarrow> nat \<Rightarrow> nat list \<times> service" where
  "onclose s code =
     (let s' = s\<lparr>isConnected := False\<rparr>
      in if code \<noteq> 1000 \<and> reconnectAttempts s' < maxReconnectAttempts s'
         then attemptReconnect s'
         else ([], s'))"

text \<open>
  Close events one after another, with no open event between them; the timers of all
  of them are collected.
\<close>

fun oncloseAll :: "service \<Rightarrow> nat list \<Rightarrow> nat list \<times> service" where
  "oncloseAll s [] = ([], s)"
| "oncloseAll s (c # cs) =
     (let (ts, s') = onclose s c; (ts', s'') = oncloseAll s' cs in (ts @ ts', s''))"

text \<open>
  \<open>close\<close> returns the calls of \<^verbatim>\<open>this.socket.close\<close>: handle, code and reason.
\<close>

definition close :: "service \<Rightarrow> (nat \<times> nat \<times> string) list \<times> service" where
  "close s =
     (let (calls, s') =
            (case socket s of
               Some h \<Rightarrow> ([(h, 1000, ''Session ended'')], s\<lparr>socket := None\<rparr>)
             | None \<Rightarrow> ([], s))
      in (calls, s'\<lparr>isConnected := False, speakerMap := fmempty\<rparr>))"

subsection \<open>transcribeRecording\<close>

text \<open>\<^verbatim>\<open>Array.prototype.join\<close> on an array of strings.\<close>

fun join :: "string \<Rightarrow> string list \<Rightarrow> string" where
  "join sep [] = []"
| "join sep [x] = x"
| "join sep (x # y # ys) = x @ sep @ join sep (y # ys)"

text \<open>\<^verbatim>\<open>w.punctuated_word || w.word\<close>: an empty punctuated form is false.\<close>

definition wordText :: "dg_word \<Rightarrow> string" where
  "wordText w =
     (case punctuated_word w of
        None \<Rightarrow> word w
      | Some p \<Rightarrow> if p = [] then word w else p)"

text \<open>
  The block \<^verbatim>\<open>if (currentWords.length) { label = ...; lines.push(...) }\<close>, which the
  source has inside the loop and once more after it.
\<close>

definition flush ::
  "service \<Rightarrow> string list \<Rightarrow> jsval \<Rightarrow> string list \<Rightarrow> service \<times> string list" where
  "flush s lines currentSpeaker currentWords =
     (if currentWords \<noteq> [] then
        (let (label, s') = getSpeakerLabel s currentSpeaker
         in (s', lines @ [label @ '': '' @ join '' '' currentWords]))
      else (s, lines))"

text \<open>The \<^verbatim>\<open>for (const w of words)\<close> loop, with its four variables.\<close>

fun segmentLoop ::
  "dg_word list \<Rightarrow> service \<Rightarrow> string list \<Rightarrow> jsval \<Rightarrow> string list
     \<Rightarrow> service \<times> string list \<times> jsval \<times> string list" where
  "segmentLoop [] s lines currentSpeaker currentWords =
     (s, lines, currentSpeaker, currentWords)"
| "segmentLoop (w # ws) s lines currentSpeaker currentWords =
     (let sp = wordSpeaker w in
      if sp \<noteq> currentSpeaker then
        (let (s', lines') = flush s lines currentSpeaker currentWords
         in segmentLoop ws s' lines' sp [wordText w])
      else segmentLoop ws s lines currentSpeaker (currentWords @ [wordText w]))"

text \<open>\<^verbatim>\<open>data.results?.channels?.[0]\<close>.\<close>

definition firstChannel :: "dg_data \<Rightarrow> dg_channel option" where
  "firstChannel data =
     (case results data of
        None \<Rightarrow> None
      | Some r \<Rightarrow>
          (case channels r of
             None \<Rightarrow> None
           | Some [] \<Rightarrow> None
           | Some (c # _) \<Rightarrow> Some c))"

text \<open>\<^verbatim>\<open>channel?.alternatives\<close>, for the first channel.\<close>

definition batchAlternatives :: "dg_data \<Rightarrow> dg_alternative list option" where
  "batchAlternatives data =
     (case firstChannel data of None \<Rightarrow> None | Some c \<Rightarrow> alternatives c)"

text \<open>
  \<open>res\<close> is the response \<^verbatim>\<open>fetch\<close> resolved to. A thrown error leaves the object as it
  was.
\<close>

definition transcribeRecording :: "service \<Rightarrow> response \<Rightarrow> (error + string) \<times> service" where
  "transcribeRecording s res =
     (if \<not> ok res then
        (Inl (Error (''Deepgram: '' @ natToString (status res) @ '' '' @ res_text res)), s)
      else
        (case res_json res of
           None \<Rightarrow> (Inl SyntaxError, s)
         | Some data \<Rightarrow>
             (case batchAlternatives data of
                None \<Rightarrow> (Inr [], s)
              | Some [] \<Rightarrow> (Inr [], s)
              | Some (a # _) \<Rightarrow>
                  (let ws = (case words a of None \<Rightarrow> [] | Some l \<Rightarrow> l) in
                   if ws = [] then
                     (Inr (case transcript a of None \<Rightarrow> [] | Some t \<Rightarrow> t), s)
                   else
                     (let s0 = s\<lparr>speakerMap := fmempty\<rparr>;
                          (s1, lines, currentSpeaker, currentWords) =
                             segmentLoop ws s0 [] JNull [];
                          (s2, lines') = flush s1 lines currentSpeaker currentWords
                      in (Inr (join [CHR 0x0A] lines'), s2))))))"

section \<open>The vocabulary of the specification\<close>

text \<open>
  The definitions of this section follow the words of the specification, not the code.
\<close>

text \<open>A sequence of ids presented to the allocator, one call each.\<close>

fun labelAll :: "service \<Rightarrow> jsval list \<Rightarrow> string list \<times> service" where
  "labelAll s [] = ([], s)"
| "labelAll s (i # is) =
     (let (l, s') = getSpeakerLabel s i; (ls, s'') = labelAll s' is in (l # ls, s''))"

text \<open>The distinct elements of a sequence, in the order in which they are first seen.\<close>

definition first_seen :: "'a list \<Rightarrow> 'a list" where
  "first_seen xs = rev (remdups (rev xs))"

text \<open>The position of the first occurrence of an element.\<close>

definition index_of :: "'a \<Rightarrow> 'a list \<Rightarrow> nat" where
  "index_of x xs = length (takeWhile (\<lambda>y. y \<noteq> x) xs)"

text \<open>
  The label of the \<open>i\<close>-th allocation, counted from 0: a letter of the alphabet A..J,
  then the numeric index.
\<close>

definition spec_label :: "nat \<Rightarrow> string" where
  "spec_label i =
     ''Speaker '' @ (if i < 10 then [''ABCDEFGHIJ'' ! i] else natToString i)"

text \<open>
  Segments: the maximal runs of consecutive entries with the same key, each with the
  values of its entries in order.
\<close>

fun runs :: "('k \<times> 'v) list \<Rightarrow> ('k \<times> 'v list) list" where
  "runs [] = []"
| "runs ((k, v) # xs) =
     (case runs xs of
        [] \<Rightarrow> [(k, [v])]
      | (k', vs) # rest \<Rightarrow>
          if k = k' then (k, v # vs) # rest else (k, [v]) # (k', vs) # rest)"

text \<open>
  The transcript: every segment rendered as label, colon, space and its words joined
  by single spaces; segments joined by newlines. The label of a segment is the one of
  its speaker's rank among the speakers in first-seen order. \<open>sp\<close> reads the speaker id
  of a word and \<open>txt\<close> what the word contributes.
\<close>

definition spec_transcript ::
  "(dg_word \<Rightarrow> jsval) \<Rightarrow> (dg_word \<Rightarrow> string) \<Rightarrow> dg_word list \<Rightarrow> string" where
  "spec_transcript sp txt ws =
     (let segs = runs (map (\<lambda>w. (sp w, txt w)) ws);
          order = first_seen (map fst segs)
      in join [CHR 0x0A]
           (map (\<lambda>(k, ts). spec_label (index_of k order) @ '': '' @ join '' '' ts) segs))"

text \<open>"Its punctuated form if present, else its raw form."\<close>

definition presentText :: "dg_word \<Rightarrow> string" where
  "presentText w = (case punctuated_word w of None \<Rightarrow> word w | Some p \<Rightarrow> p)"

text \<open>A word without a speaker field, given the speaker id 0.\<close>

definition speakerZero :: "dg_word \<Rightarrow> dg_word" where
  "speakerZero w = (case speaker w of None \<Rightarrow> w\<lparr>speaker := Some 0\<rparr> | Some i \<Rightarrow> w)"

text \<open>
  The label the table holds for the id \<open>x\<close> after the ids \<open>ids\<close> were presented to the
  allocator of \<open>s\<close>.
\<close>

definition finalLabel :: "service \<Rightarrow> int list \<Rightarrow> int \<Rightarrow> string option" where
  "finalLabel s ids x =
     fmlookup (speakerMap (snd (labelAll s (map JNum ids)))) (toPropertyKey (JNum x))"

text \<open>
  The speaker id of a streaming result: that of the first word of the list, 0 if there
  is no first word or it has no speaker.
\<close>

definition spec_speakerId :: "dg_alternative \<Rightarrow> jsval" where
  "spec_speakerId a =
     (case words a of
        Some (w # _) \<Rightarrow> (case speaker w of Some i \<Rightarrow> JNum i | None \<Rightarrow> JNum 0)
      | _ \<Rightarrow> JNum 0)"

text \<open>
  The word list a batch response carries: that of the first alternative of the first
  channel of a successful response; empty when there is none.
\<close>

definition batchWords :: "response \<Rightarrow> dg_word list" where
  "batchWords res =
     (if ok res then
        (case res_json res of
           None \<Rightarrow> []
         | Some data \<Rightarrow>
             (case batchAlternatives data of
                Some (a # _) \<Rightarrow> (case words a of Some ws \<Rightarrow> ws | None \<Rightarrow> [])
              | _ \<Rightarrow> []))
      else [])"

text \<open>
  A successful response whose only alternative has the transcript \<open>t\<close> and the word
  list \<open>ws\<close>.
\<close>

definition okResponse :: "string option \<Rightarrow> dg_word list option \<Rightarrow> response" where
  "okResponse t ws =
     \<lparr> ok = True, status = 200, res_text = [],
       res_json = Some \<lparr> results = Some \<lparr> channels = Some
         [\<lparr> alternatives = Some [\<lparr> transcript = t, confidence = None, words = ws \<rparr>] \<rparr>] \<rparr> \<rparr> \<rparr>"

text \<open>
  The segments rendered one after another by the allocator; it links the loop of the
  code to \<open>runs\<close>.
\<close>

fun renderSegs :: "service \<Rightarrow> (jsval \<times> string list) list \<Rightarrow> service \<times> string list" where
  "renderSegs s [] = (s, [])"
| "renderSegs s ((k, ts) # rest) =
     (let (l, s') = getSpeakerLabel s k;
          (s'', ls) = renderSegs s' rest
      in (s'', (l @ '': '' @ join '' '' ts) # ls))"

section \<open>Properties\<close>

subsection \<open>Decimal rendering is injective\<close>

lemma lt10_cases: "d < (10::nat) \<Longrightarrow> d = 0 \<or> d = 1 \<or> d = 2 \<or> d = 3 \<or> d = 4 \<or> d = 5 \<or> d = 6 \<or> d = 7 \<or> d = 8 \<or> d = 9"
  by arith

lemma digit_inj: "d < 10 \<Longrightarrow> e < 10 \<Longrightarrow> digit d = digit e \<Longrightarrow> d = e"
  using lt10_cases[of d] lt10_cases[of e] by (auto simp: digit_def)

lemma digit_in: "d < 10 \<Longrightarrow> digit d \<in> set ''0123456789''"
  unfolding digit_def by (rule nth_mem) simp

lemma natToString_nonempty: "natToString n \<noteq> []"
  by (subst natToString.simps) simp

lemma natToString_digits: "set (natToString n) \<subseteq> set ''0123456789''"
proof (induction n rule: natToString.induct)
  case (1 n)
  show ?case
  proof (cases "n < 10")
    case True
    then show ?thesis using digit_in[of n] by (subst natToString.simps) simp
  next
    case False
    have "n mod 10 < 10" by simp
    then have "digit (n mod 10) \<in> set ''0123456789''" by (rule digit_in)
    with False 1 show ?thesis by (subst natToString.simps) simp
  qed
qed

lemma natToString_inj: "natToString n = natToString m \<Longrightarrow> n = m"
proof (induction n arbitrary: m rule: natToString.induct)
  case (1 n)
  show ?case
  proof (cases "n < 10")
    case n: True
    show ?thesis
    proof (cases "m < 10")
      case True
      with n 1(2) show ?thesis
        by (simp add: natToString.simps[of n] natToString.simps[of m] digit_inj)
    next
      case False
      with n 1(2) natToString_nonempty[of "m div 10"] show ?thesis
        by (simp add: natToString.simps[of n] natToString.simps[of m])
    qed
  next
    case n: False
    show ?thesis
    proof (cases "m < 10")
      case True
      with n 1(2) natToString_nonempty[of "n div 10"] show ?thesis
        by (simp add: natToString.simps[of n] natToString.simps[of m])
    next
      case False
      with n 1(2) have a: "natToString (n div 10) = natToString (m div 10)"
        and b: "digit (n mod 10) = digit (m mod 10)"
        by (simp_all add: natToString.simps[of n] natToString.simps[of m])
      from 1(1)[OF n a] have "n div 10 = m div 10" .
      moreover from b have "n mod 10 = m mod 10" by (intro digit_inj) simp_all
      ultimately show ?thesis by (metis div_mult_mod_eq)
    qed
  qed
qed

lemma numberToString_inj: "numberToString i = numberToString j \<Longrightarrow> i = j"
proof -
  assume h: "numberToString i = numberToString j"
  have nd: "CHR ''-'' \<notin> set (natToString k)" for k
    using natToString_digits[of k] by auto
  have hd1: "natToString k \<noteq> CHR ''-'' # r" for k r
    using nd[of k] by auto
  have hd2: "CHR ''-'' # r \<noteq> natToString k" for k r
    using hd1[of k r] by metis
  show ?thesis
  proof (cases "i < 0"; cases "j < 0")
    assume "i < 0" "j < 0"
    with h have "natToString (nat (- i)) = natToString (nat (- j))" by (simp add: numberToString_def)
    then have "nat (- i) = nat (- j)" by (rule natToString_inj)
    with \<open>i < 0\<close> \<open>j < 0\<close> show ?thesis by simp
  next
    assume "i < 0" "\<not> j < 0"
    with h hd2[of _ "nat j"] show ?thesis by (simp add: numberToString_def)
  next
    assume "\<not> i < 0" "j < 0"
    with h hd1[of "nat i"] show ?thesis by (simp add: numberToString_def)
  next
    assume "\<not> i < 0" "\<not> j < 0"
    with h have "natToString (nat i) = natToString (nat j)" by (simp add: numberToString_def)
    then have "nat i = nat j" by (rule natToString_inj)
    with \<open>\<not> i < 0\<close> \<open>\<not> j < 0\<close> show ?thesis by simp
  qed
qed

lemma numberToString_not_null: "numberToString i \<noteq> ''null''"
proof -
  have nd: "CHR ''n'' \<notin> set (natToString k)" for k
    using natToString_digits[of k] by auto
  show ?thesis using nd[of "nat i"] nd[of "nat (- i)"]
    by (auto simp: numberToString_def)
qed

lemma toPropertyKey_inj: "toPropertyKey a = toPropertyKey b \<Longrightarrow> a = b"
  using numberToString_not_null
  by (cases a; cases b) (auto dest: numberToString_inj simp: numberToString_not_null[symmetric])

subsection \<open>The allocator\<close>

lemma newLabel_nonempty: "newLabel i \<noteq> []"
  by (simp add: newLabel_def)

lemma spec_label_eq: "spec_label i = newLabel i"
proof (cases "i < 10")
  case True
  then show ?thesis using lt10_cases[of i]
    by (auto simp: spec_label_def newLabel_def labels_def)
next
  case False
  then show ?thesis by (simp add: spec_label_def newLabel_def labels_def)
qed

lemma first_seen_snoc:
  "first_seen (xs @ [x]) = (if x \<in> set xs then first_seen xs else first_seen xs @ [x])"
  by (simp add: first_seen_def)

lemma set_first_seen: "set (first_seen xs) = set xs"
  by (simp add: first_seen_def)

lemma distinct_first_seen: "distinct (first_seen xs)"
  by (simp add: first_seen_def)

lemma index_of_append_in: "x \<in> set xs \<Longrightarrow> index_of x (xs @ ys) = index_of x xs"
  by (simp add: index_of_def takeWhile_append1)

lemma index_of_snoc_new: "x \<notin> set xs \<Longrightarrow> index_of x (xs @ [x]) = length xs"
  by (induction xs) (auto simp: index_of_def)

lemma index_of_nth: "distinct xs \<Longrightarrow> i < length xs \<Longrightarrow> index_of (xs ! i) xs = i"
proof -
  assume d: "distinct xs" and i: "i < length xs"
  have "takeWhile (\<lambda>y. y \<noteq> xs ! i) xs = take i xs"
    by (rule takeWhile_eq_take_P_nth) (use d i in \<open>auto simp: nth_eq_iff_index_eq\<close>)
  with i show ?thesis by (simp add: index_of_def)
qed

lemma labelAll_snoc:
  "labelAll s (xs @ [x]) =
     (fst (labelAll s xs) @ [fst (getSpeakerLabel (snd (labelAll s xs)) x)],
      snd (getSpeakerLabel (snd (labelAll s xs)) x))"
  by (induction xs arbitrary: s) (simp_all add: split_beta)

lemma getSpeakerLabel_known:
  "fmlookup (speakerMap s) (toPropertyKey x) = Some l \<Longrightarrow> l \<noteq> [] \<Longrightarrow> getSpeakerLabel s x = (l, s)"
  by (simp add: getSpeakerLabel_def)

lemma getSpeakerLabel_new:
  "fmlookup (speakerMap s) (toPropertyKey x) = None \<Longrightarrow>
     getSpeakerLabel s x =
       (newLabel (fcard (fmdom (speakerMap s))),
        s\<lparr>speakerMap := fmupd (toPropertyKey x) (newLabel (fcard (fmdom (speakerMap s)))) (speakerMap s)\<rparr>)"
  by (simp add: getSpeakerLabel_def Let_def)

text \<open>The table after a sequence of calls from the empty table.\<close>

lemma labelAll_table:
  assumes e: "speakerMap s = fmempty"
  shows "fmdom' (speakerMap (snd (labelAll s ids))) = toPropertyKey ` set ids
       \<and> fcard (fmdom (speakerMap (snd (labelAll s ids)))) = length (first_seen ids)
       \<and> (\<forall>x\<in>set ids. fmlookup (speakerMap (snd (labelAll s ids))) (toPropertyKey x)
                = Some (newLabel (index_of x (first_seen ids))))
       \<and> fst (labelAll s ids) = map (\<lambda>x. newLabel (index_of x (first_seen ids))) ids"
proof (induction ids rule: rev_induct)
  case Nil
  show ?case by (simp add: e first_seen_def)
next
  case (snoc x ids)
  let ?s = "snd (labelAll s ids)"
  let ?ds = "first_seen ids"
  from snoc have dom: "fmdom' (speakerMap ?s) = toPropertyKey ` set ids"
    and card: "fcard (fmdom (speakerMap ?s)) = length ?ds"
    and look: "\<And>y. y \<in> set ids \<Longrightarrow>
         fmlookup (speakerMap ?s) (toPropertyKey y) = Some (newLabel (index_of y ?ds))"
    and out: "fst (labelAll s ids) = map (\<lambda>x. newLabel (index_of x ?ds)) ids"
    by auto
  show ?case
  proof (cases "x \<in> set ids")
    case True
    have g: "getSpeakerLabel ?s x = (newLabel (index_of x ?ds), ?s)"
      by (rule getSpeakerLabel_known[OF look[OF True] newLabel_nonempty])
    have fs: "first_seen (ids @ [x]) = ?ds" using True by (simp add: first_seen_snoc)
    have "toPropertyKey ` set (ids @ [x]) = toPropertyKey ` set ids" using True by auto
    then show ?thesis
      using dom card look out True
      by (simp add: labelAll_snoc g fs)
  next
    case False
    have "toPropertyKey x \<notin> toPropertyKey ` set ids"
      using False toPropertyKey_inj by auto
    then have nd: "toPropertyKey x \<notin> fmdom' (speakerMap ?s)"
      by (simp add: dom)
    then have none: "fmlookup (speakerMap ?s) (toPropertyKey x) = None"
      by (simp add: fmdom'_notD)
    then have nf: "toPropertyKey x |\<notin>| fmdom (speakerMap ?s)"
      by (simp add: fmdom_notI)
    have fs: "first_seen (ids @ [x]) = ?ds @ [x]" using False by (simp add: first_seen_snoc)
    have xn: "x \<notin> set ?ds" using False by (simp add: set_first_seen)
    have old: "index_of y (?ds @ [x]) = index_of y ?ds" if "y \<in> set ids" for y
      using that by (simp add: index_of_append_in set_first_seen)
    have neq: "toPropertyKey x \<noteq> toPropertyKey y" if "y \<in> set ids" for y
      using that False toPropertyKey_inj by auto
    have new: "index_of x (?ds @ [x]) = length ?ds"
      using xn by (rule index_of_snoc_new)
    have c1: "fmdom' (speakerMap (snd (labelAll s (ids @ [x])))) = toPropertyKey ` set (ids @ [x])"
      unfolding labelAll_snoc getSpeakerLabel_new[OF none] using dom by simp
    have c2: "fcard (fmdom (speakerMap (snd (labelAll s (ids @ [x]))))) = length (first_seen (ids @ [x]))"
      unfolding labelAll_snoc getSpeakerLabel_new[OF none] fs using card nf
      by (simp add: fcard_finsert_disjoint)
    have c3: "fmlookup (speakerMap (snd (labelAll s (ids @ [x])))) (toPropertyKey y)
                = Some (newLabel (index_of y (first_seen (ids @ [x]))))"
      if "y \<in> set (ids @ [x])" for y
    proof (cases "y = x")
      case True
      then show ?thesis
        unfolding labelAll_snoc getSpeakerLabel_new[OF none] fs
        by (simp add: new card)
    next
      case False
      with that have y: "y \<in> set ids" by simp
      show ?thesis
        unfolding labelAll_snoc getSpeakerLabel_new[OF none] fs
        using neq[OF y] look[OF y] old[OF y] by simp
    qed
    have c4: "fst (labelAll s (ids @ [x])) = map (\<lambda>y. newLabel (index_of y (first_seen (ids @ [x])))) (ids @ [x])"
      unfolding labelAll_snoc getSpeakerLabel_new[OF none] fs
      using out old by (simp add: new card)
    from c1 c2 c3 c4 show ?thesis by blast
  qed
qed

subsection \<open>The batch loop computes the segments\<close>

lemma runs_head: "\<exists>vs rest. runs ((k, v) # xs) = (k, vs) # rest"
  by (cases "runs xs") (auto split: if_splits)

lemma runs_const: "cws \<noteq> [] \<Longrightarrow> runs (map (Pair k) cws) = [(k, cws)]"
proof (induction cws)
  case Nil
  then show ?case by simp
next
  case (Cons c cws)
  then show ?case by (cases cws) auto
qed

lemma runs_break:
  "k \<noteq> k' \<Longrightarrow> cws \<noteq> [] \<Longrightarrow>
     runs (map (Pair k) cws @ (k', v) # xs) = (k, cws) # runs ((k', v) # xs)"
proof (induction cws)
  case Nil
  then show ?case by simp
next
  case (Cons c cws)
  show ?case
  proof (cases cws)
    case Nil
    obtain vs rest where "runs ((k', v) # xs) = (k', vs) # rest"
      using runs_head[of "k'" v xs] by blast
    with Nil Cons.prems(1) show ?thesis by simp
  next
    case (Cons d ds)
    with Cons.IH Cons.prems(1) show ?thesis by simp
  qed
qed

lemma segmentLoop_runs:
  "cws \<noteq> [] \<Longrightarrow>
     (case segmentLoop ws s lines cur cws of
        (s1, lines1, cur1, cws1) \<Rightarrow> flush s1 lines1 cur1 cws1)
     = (case renderSegs s (runs (map (Pair cur) cws @ map (\<lambda>w. (wordSpeaker w, wordText w)) ws)) of
          (s', ls) \<Rightarrow> (s', lines @ ls))"
proof (induction ws arbitrary: s lines cur cws)
  case Nil
  then show ?case
    by (simp add: runs_const flush_def split_beta)
next
  case (Cons w ws)
  show ?case
  proof (cases "wordSpeaker w = cur")
    case True
    have "(case segmentLoop (w # ws) s lines cur cws of
            (s1, lines1, cur1, cws1) \<Rightarrow> flush s1 lines1 cur1 cws1)
        = (case segmentLoop ws s lines cur (cws @ [wordText w]) of
            (s1, lines1, cur1, cws1) \<Rightarrow> flush s1 lines1 cur1 cws1)"
      using True by simp
    also have "\<dots> = (case renderSegs s (runs (map (Pair cur) (cws @ [wordText w])
                          @ map (\<lambda>w. (wordSpeaker w, wordText w)) ws)) of
          (s', ls) \<Rightarrow> (s', lines @ ls))"
      by (rule Cons.IH) simp
    finally show ?thesis using True by simp
  next
    case False
    obtain l s' where g: "getSpeakerLabel s cur = (l, s')" by (cases "getSpeakerLabel s cur")
    let ?line = "l @ '': '' @ join '' '' cws"
    have fl: "flush s lines cur cws = (s', lines @ [?line])"
      using Cons.prems g by (simp add: flush_def)
    have "(case segmentLoop (w # ws) s lines cur cws of
            (s1, lines1, cur1, cws1) \<Rightarrow> flush s1 lines1 cur1 cws1)
        = (case segmentLoop ws s' (lines @ [?line]) (wordSpeaker w) [wordText w] of
            (s1, lines1, cur1, cws1) \<Rightarrow> flush s1 lines1 cur1 cws1)"
      using False fl by simp
    also have "\<dots> = (case renderSegs s' (runs (map (Pair (wordSpeaker w)) [wordText w]
                          @ map (\<lambda>w. (wordSpeaker w, wordText w)) ws)) of
          (s'', ls) \<Rightarrow> (s'', (lines @ [?line]) @ ls))"
      by (rule Cons.IH) simp
    also have "\<dots> = (case renderSegs s (runs (map (Pair cur) cws
                          @ map (\<lambda>w. (wordSpeaker w, wordText w)) (w # ws))) of
          (s', ls) \<Rightarrow> (s', lines @ ls))"
      using False Cons.prems g
      by (simp add: runs_break[of cur "wordSpeaker w"] split_beta del: runs.simps)
    finally show ?thesis .
  qed
qed

lemma wordSpeaker_not_null: "wordSpeaker w \<noteq> JNull"
  by (simp add: wordSpeaker_def split: option.splits)

lemma segmentLoop_start:
  "ws \<noteq> [] \<Longrightarrow>
     (case segmentLoop ws s [] JNull [] of
        (s1, lines1, cur1, cws1) \<Rightarrow> flush s1 lines1 cur1 cws1)
     = renderSegs s (runs (map (\<lambda>w. (wordSpeaker w, wordText w)) ws))"
proof (cases ws)
  case Nil
  assume "ws \<noteq> []"
  with Nil show ?thesis by simp
next
  case (Cons w ws')
  have "(case segmentLoop ws s [] JNull [] of
        (s1, lines1, cur1, cws1) \<Rightarrow> flush s1 lines1 cur1 cws1)
     = (case segmentLoop ws' s [] (wordSpeaker w) [wordText w] of
        (s1, lines1, cur1, cws1) \<Rightarrow> flush s1 lines1 cur1 cws1)"
    using Cons wordSpeaker_not_null[of w] by (simp add: flush_def)
  also have "\<dots> = (case renderSegs s (runs (map (Pair (wordSpeaker w)) [wordText w]
                          @ map (\<lambda>w. (wordSpeaker w, wordText w)) ws')) of
          (s', ls) \<Rightarrow> (s', [] @ ls))"
    by (rule segmentLoop_runs) simp
  finally show ?thesis using Cons by simp
qed

lemma renderSegs_labelAll:
  "renderSegs s segs =
     (snd (labelAll s (map fst segs)),
      map2 (\<lambda>l (k, ts). l @ '': '' @ join '' '' ts) (fst (labelAll s (map fst segs))) segs)"
  by (induction segs arbitrary: s) (auto simp: split_beta)

lemma renderSegs_spec:
  assumes "speakerMap s = fmempty"
  shows "snd (renderSegs s segs) =
     map (\<lambda>(k, ts). spec_label (index_of k (first_seen (map fst segs))) @ '': '' @ join '' '' ts) segs"
proof -
  have "fst (labelAll s (map fst segs))
          = map (\<lambda>x. newLabel (index_of x (first_seen (map fst segs)))) (map fst segs)"
    using labelAll_table[OF assms, of "map fst segs"] by blast
  then show ?thesis
    by (simp add: renderSegs_labelAll spec_label_eq zip_map1 zip_same_conv_map split_beta map_zip_map)
qed

lemma first_seen_Nil: "first_seen [] = []"
  by (simp add: first_seen_def)

lemma first_seen_map_inj: "inj f \<Longrightarrow> first_seen (map f xs) = map f (first_seen xs)"
  by (induction xs rule: rev_induct) (auto simp: first_seen_Nil first_seen_snoc inj_image_mem_iff)

lemma index_of_map_inj: "inj f \<Longrightarrow> index_of (f x) (map f xs) = index_of x xs"
  by (induction xs) (auto simp: index_of_def dest: injD)

lemma inj_JNum: "inj JNum"
  by (simp add: inj_def)

lemma batch_lines:
  assumes ne: "ws \<noteq> []"
  shows "(let (s1, lines, currentSpeaker, currentWords) = segmentLoop ws s0 [] JNull [];
              (s2, lines') = flush s1 lines currentSpeaker currentWords
          in (Inr (join [CHR 0x0A] lines') :: error + string, s2))
       = (Inr (join [CHR 0x0A]
                 (snd (renderSegs s0 (runs (map (\<lambda>w. (wordSpeaker w, wordText w)) ws))))),
          fst (renderSegs s0 (runs (map (\<lambda>w. (wordSpeaker w, wordText w)) ws))))"
proof -
  obtain s1 l1 c1 w1 where sl: "segmentLoop ws s0 [] JNull [] = (s1, l1, c1, w1)"
    by (metis prod_cases4)
  from segmentLoop_start[OF ne, of s0] sl
  have "flush s1 l1 c1 w1 = renderSegs s0 (runs (map (\<lambda>w. (wordSpeaker w, wordText w)) ws))"
    by simp
  then show ?thesis by (simp add: sl split_beta)
qed

lemma transcribe_words:
  assumes "ok res" "res_json res = Some data" "batchAlternatives data = Some (a # as)"
    "words a = Some ws" "ws \<noteq> []"
  shows "transcribeRecording s res =
     (Inr (join [CHR 0x0A]
                 (snd (renderSegs (s\<lparr>speakerMap := fmempty\<rparr>) (runs (map (\<lambda>w. (wordSpeaker w, wordText w)) ws))))),
          fst (renderSegs (s\<lparr>speakerMap := fmempty\<rparr>) (runs (map (\<lambda>w. (wordSpeaker w, wordText w)) ws))))"
  using assms batch_lines[OF assms(5), of "s\<lparr>speakerMap := fmempty\<rparr>"]
  by (simp add: transcribeRecording_def Let_def)

lemma finalLabel_rank:
  assumes e: "speakerMap s = fmempty" and x: "x \<in> set ids"
  shows "finalLabel s ids x = Some (spec_label (index_of x (first_seen ids)))"
proof -
  from x have "JNum x \<in> set (map JNum ids)" by simp
  with labelAll_table[OF e, of "map JNum ids"]
  have "finalLabel s ids x
          = Some (newLabel (index_of (JNum x) (first_seen (map JNum ids))))"
    unfolding finalLabel_def by blast
  then show ?thesis
    by (simp add: first_seen_map_inj[OF inj_JNum] index_of_map_inj[OF inj_JNum] spec_label_eq)
qed

lemma finalLabel_nth:
  assumes e: "speakerMap s = fmempty" and i: "i < length (first_seen ids)"
  shows "finalLabel s ids (first_seen ids ! i) = Some (spec_label i)"
proof -
  from i have "first_seen ids ! i \<in> set ids"
    using nth_mem[OF i] by (simp add: set_first_seen)
  from finalLabel_rank[OF e this] show ?thesis
    by (simp add: index_of_nth[OF distinct_first_seen i])
qed

lemma letter_inj: "i < 10 \<Longrightarrow> j < 10 \<Longrightarrow> ''ABCDEFGHIJ'' ! i = ''ABCDEFGHIJ'' ! j \<Longrightarrow> i = j"
  using lt10_cases[of i] lt10_cases[of j] by auto


subsection \<open>Batch responses with and without words\<close>

lemma transcribe_spec:
  assumes "ok res" "res_json res = Some data" "batchAlternatives data = Some (a # as)"
    "words a = Some ws" "ws \<noteq> []"
  shows "fst (transcribeRecording s res) = Inr (spec_transcript wordSpeaker wordText ws)
       \<and> snd (transcribeRecording s res)
          = snd (labelAll (s\<lparr>speakerMap := fmempty\<rparr>)
                   (map fst (runs (map (\<lambda>w. (wordSpeaker w, wordText w)) ws))))"
proof -
  have e: "speakerMap (s\<lparr>speakerMap := fmempty\<rparr>) = fmempty" by simp
  have "fst (transcribeRecording s res) = Inr (spec_transcript wordSpeaker wordText ws)"
    unfolding transcribe_words[OF assms]
    by (simp add: renderSegs_spec[OF e] spec_transcript_def Let_def)
  moreover have "snd (transcribeRecording s res)
          = snd (labelAll (s\<lparr>speakerMap := fmempty\<rparr>)
                   (map fst (runs (map (\<lambda>w. (wordSpeaker w, wordText w)) ws))))"
    unfolding transcribe_words[OF assms]
    by (simp add: renderSegs_labelAll)
  ultimately show ?thesis by simp
qed

lemma batchWords_sound:
  "ok res \<Longrightarrow> res_json res = Some data \<Longrightarrow> batchAlternatives data = Some (a # as) \<Longrightarrow>
     words a = Some ws \<Longrightarrow> batchWords res = ws"
  by (simp add: batchWords_def)

lemma batchWords_cases:
  assumes "batchWords res \<noteq> []"
  obtains data a as where "ok res" "res_json res = Some data"
    "batchAlternatives data = Some (a # as)" "words a = Some (batchWords res)"
proof -
  from assms have o: "ok res" by (auto simp: batchWords_def split: if_splits)
  with assms obtain data where d: "res_json res = Some data"
    by (cases "res_json res") (auto simp: batchWords_def)
  with o assms obtain a as where al: "batchAlternatives data = Some (a # as)"
    by (cases "batchAlternatives data"; cases "the (batchAlternatives data)")
       (auto simp: batchWords_def)
  with o d assms have "words a = Some (batchWords res)"
    by (cases "words a") (auto simp: batchWords_def)
  with o d al that show thesis by blast
qed

lemma transcribe_no_words:
  assumes "batchWords res = []"
  shows "snd (transcribeRecording s res) = s"
proof (cases "ok res")
  case False
  then show ?thesis by (simp add: transcribeRecording_def)
next
  case o: True
  show ?thesis
  proof (cases "res_json res")
    case None
    with o show ?thesis by (simp add: transcribeRecording_def)
  next
    case (Some data)
    show ?thesis
    proof (cases "batchAlternatives data")
      case None
      with o Some show ?thesis by (simp add: transcribeRecording_def)
    next
      case al: (Some alts)
      show ?thesis
      proof (cases alts)
        case Nil
        with o Some al show ?thesis by (simp add: transcribeRecording_def)
      next
        case (Cons a as)
        with o Some al assms have "(case words a of None \<Rightarrow> [] | Some l \<Rightarrow> l) = []"
          by (simp add: batchWords_def split: option.splits)
        with o Some al Cons show ?thesis by (simp add: transcribeRecording_def)
      qed
    qed
  qed
qed

lemma transcribe_reset:
  assumes "batchWords res \<noteq> []"
  shows "transcribeRecording s res = transcribeRecording (s\<lparr>speakerMap := fmempty\<rparr>) res"
proof -
  from assms obtain data a as where h: "ok res" "res_json res = Some data"
    "batchAlternatives data = Some (a # as)" "words a = Some (batchWords res)"
    by (rule batchWords_cases)
  show ?thesis
    by (simp add: transcribe_words[OF h assms])
qed

lemma wordSpeaker_speakerZero: "wordSpeaker (speakerZero w) = wordSpeaker w"
  by (simp add: wordSpeaker_def speakerZero_def split: option.splits)

lemma wordText_speakerZero: "wordText (speakerZero w) = wordText w"
  by (simp add: wordText_def speakerZero_def split: option.splits)

lemma transcribe_speakerZero:
  assumes r: "batchWords res = ws" and r': "batchWords res' = map speakerZero ws"
    and ne: "ws \<noteq> []"
  shows "transcribeRecording s res' = transcribeRecording s res"
proof -
  from r ne have "batchWords res \<noteq> []" by simp
  then obtain data a as where h: "ok res" "res_json res = Some data"
    "batchAlternatives data = Some (a # as)" "words a = Some (batchWords res)"
    by (rule batchWords_cases)
  from r' ne have ne': "batchWords res' \<noteq> []" by simp
  then obtain data' a' as' where h': "ok res'" "res_json res' = Some data'"
    "batchAlternatives data' = Some (a' # as')" "words a' = Some (batchWords res')"
    by (rule batchWords_cases)
  have "map (\<lambda>w. (wordSpeaker w, wordText w)) (batchWords res')
          = map (\<lambda>w. (wordSpeaker w, wordText w)) (batchWords res)"
    by (simp add: r r' wordSpeaker_speakerZero wordText_speakerZero)
  then show ?thesis
    using r ne by (simp add: transcribe_words[OF h'] transcribe_words[OF h] ne')
qed

subsection \<open>The segments of the specification are the maximal runs\<close>

lemma runs_concat: "concat (map (\<lambda>(k, vs). map (Pair k) vs) (runs xs)) = xs"
proof (induction xs)
  case Nil
  then show ?case by simp
next
  case (Cons x xs)
  obtain k v where x: "x = (k, v)" by (cases x)
  from Cons show ?case
    unfolding x by (cases "runs xs") (auto split: if_splits)
qed

lemma runs_nonempty: "(k, vs) \<in> set (runs xs) \<Longrightarrow> vs \<noteq> []"
proof (induction xs arbitrary: k vs)
  case Nil
  then show ?case by simp
next
  case (Cons x xs)
  obtain k' v where x: "x = (k', v)" by (cases x)
  from Cons show ?case
    unfolding x by (cases "runs xs") (auto split: if_splits)
qed

lemma runs_maximal: "Suc i < length (runs xs) \<Longrightarrow> fst (runs xs ! i) \<noteq> fst (runs xs ! Suc i)"
proof (induction xs arbitrary: i)
  case Nil
  then show ?case by simp
next
  case (Cons x xs)
  obtain k v where x: "x = (k, v)" by (cases x)
  show ?case
  proof (cases "runs xs")
    case Nil
    with Cons.prems show ?thesis unfolding x by simp
  next
    case c: (Cons r rest)
    obtain k' vs where r: "r = (k', vs)" by (cases r)
    show ?thesis
    proof (cases "k = k'")
      case True
      have e: "runs (x # xs) = (k, v # vs) # rest" unfolding x using c r True by simp
      show ?thesis
      proof (cases i)
        case 0
        from Cons.IH[of 0] Cons.prems c r True show ?thesis unfolding e 0 by simp
      next
        case (Suc j)
        from Cons.IH[of i] Cons.prems c r show ?thesis unfolding e Suc by simp
      qed
    next
      case False
      have e: "runs (x # xs) = (k, [v]) # runs xs" unfolding x using c r False by simp
      show ?thesis
      proof (cases i)
        case 0
        with False c r show ?thesis unfolding e by simp
      next
        case (Suc j)
        from Cons.IH[of j] Cons.prems show ?thesis unfolding e Suc by simp
      qed
    qed
  qed
qed

subsection \<open>Closing and reconnecting\<close>

lemma close_state: "snd (close s) = s\<lparr>socket := None, isConnected := False, speakerMap := fmempty\<rparr>"
  by (simp add: close_def split: option.splits)

lemma getSpeakerLabel_fresh_0:
  "speakerMap s = fmempty \<Longrightarrow>
     getSpeakerLabel s (JNum 0) = (''Speaker A'', s\<lparr>speakerMap := fmupd ''0'' ''Speaker A'' fmempty\<rparr>)"
  by (simp add: getSpeakerLabel_def newLabel_def labels_def
        numberToString_def natToString.simps digit_def Let_def fcard_fempty)

lemma onclose_full:
  "reconnectAttempts s \<ge> maxReconnectAttempts s \<Longrightarrow>
     onclose s c = ([], s\<lparr>isConnected := False\<rparr>)"
  by (simp add: onclose_def)

lemma onclose_attempts_mono:
  "reconnectAttempts (snd (onclose s c)) \<ge> reconnectAttempts s
   \<and> maxReconnectAttempts (snd (onclose s c)) = maxReconnectAttempts s"
  by (simp add: onclose_def attemptReconnect_def Let_def)

lemma onclose_abnormal:
  "c \<noteq> 1000 \<Longrightarrow> reconnectAttempts s < maxReconnectAttempts s \<Longrightarrow>
     onclose s c = ([2000 * (reconnectAttempts s + 1)],
                    s\<lparr>isConnected := False, reconnectAttempts := reconnectAttempts s + 1\<rparr>)"
  by (simp add: onclose_def attemptReconnect_def Let_def)

lemma oncloseAll_max:
  "maxReconnectAttempts (snd (oncloseAll s cs)) = maxReconnectAttempts s"
  by (induction cs arbitrary: s) (simp_all add: split_beta onclose_attempts_mono)

lemma oncloseAll_attempts:
  "\<forall>c\<in>set cs. c \<noteq> 1000 \<Longrightarrow>
     min (maxReconnectAttempts s) (reconnectAttempts s + length cs)
       \<le> reconnectAttempts (snd (oncloseAll s cs))"
proof (induction cs arbitrary: s)
  case Nil
  then show ?case by simp
next
  case (Cons c cs)
  from Cons.prems have c: "c \<noteq> 1000" and cs: "\<forall>c\<in>set cs. c \<noteq> 1000" by simp_all
  let ?s = "snd (onclose s c)"
  have m: "maxReconnectAttempts ?s = maxReconnectAttempts s"
    using onclose_attempts_mono by blast
  have "min (maxReconnectAttempts s) (reconnectAttempts s + 1) \<le> reconnectAttempts ?s"
  proof (cases "reconnectAttempts s < maxReconnectAttempts s")
    case True
    then show ?thesis by (simp add: onclose_abnormal[OF c True])
  next
    case False
    then show ?thesis by (simp add: onclose_full)
  qed
  with Cons.IH[OF cs, of ?s] m show ?case
    by (simp add: split_beta min_def split: if_splits)
qed

lemma oncloseAll_disconnected:
  "cs \<noteq> [] \<Longrightarrow> \<not> isConnected (snd (oncloseAll s cs))"
proof (induction cs arbitrary: s)
  case Nil
  then show ?case by simp
next
  case (Cons c cs)
  have d: "\<not> isConnected (snd (onclose s c))"
    by (simp add: onclose_def attemptReconnect_def Let_def)
  show ?case
  proof (cases cs)
    case Nil
    with d show ?thesis by (simp add: split_beta)
  next
    case (Cons a list)
    with Cons.IH[of "snd (onclose s c)"] show ?thesis by (simp add: split_beta)
  qed
qed

section \<open>The claims\<close>

text \<open>
  C1, as amended. For a successful response whose first alternative has a non-empty word
  list, \<open>transcribeRecording\<close> empties the speaker table and returns the transcript of
  the specification: the maximal runs of words with the same speaker id (a missing id
  counts as 0), the first word opening the first run and the last run included; each
  run rendered as label, colon, space and its words joined by single spaces, the runs
  joined by newlines in order. A word contributes its punctuated form if that is
  present and not empty, else its raw form. The table afterwards is the one the
  allocator builds from the empty table for the speakers of the runs in order.
\<close>

theorem transcribeRecording_segments:
  assumes "ok res" "res_json res = Some data" "batchAlternatives data = Some (a # as)"
    "words a = Some ws" "ws \<noteq> []"
  shows "fst (transcribeRecording s res) = Inr (spec_transcript wordSpeaker wordText ws)
       \<and> snd (transcribeRecording s res)
          = snd (labelAll (s\<lparr>speakerMap := fmempty\<rparr>)
                   (map fst (runs (map (\<lambda>w. (wordSpeaker w, wordText w)) ws))))"
  using assms by (rule transcribe_spec)

text \<open>The example of the specification: hi, there (speaker 0), bye (speaker 1).\<close>

theorem transcribeRecording_segments_witness:
  "fst (transcribeRecording (constructor ''key'')
          (okResponse (Some ''hi there bye'')
             (Some [\<lparr>word = ''hi'', punctuated_word = None, speaker = Some 0\<rparr>,
                    \<lparr>word = ''there'', punctuated_word = None, speaker = Some 0\<rparr>,
                    \<lparr>word = ''bye'', punctuated_word = None, speaker = Some 1\<rparr>])))
     = Inr (''Speaker A: hi there'' @ [CHR 0x0A] @ ''Speaker B: bye'')"
proof -
  let ?ws = "[\<lparr>word = ''hi'', punctuated_word = None, speaker = Some 0\<rparr>,
              \<lparr>word = ''there'', punctuated_word = None, speaker = Some 0\<rparr>,
              \<lparr>word = ''bye'', punctuated_word = None, speaker = Some 1\<rparr>]"
  let ?a = "\<lparr>transcript = Some ''hi there bye'', confidence = None, words = Some ?ws\<rparr>"
  let ?d = "\<lparr>results = Some \<lparr>channels = Some [\<lparr>alternatives = Some [?a]\<rparr>]\<rparr>\<rparr>"
  let ?r = "okResponse (Some ''hi there bye'') (Some ?ws)"
  have h: "ok ?r" "res_json ?r = Some ?d" "batchAlternatives ?d = Some (?a # [])"
    "words ?a = Some ?ws" "?ws \<noteq> []"
    by (simp_all add: okResponse_def batchAlternatives_def firstChannel_def)
  have v: "spec_transcript wordSpeaker wordText ?ws
             = ''Speaker A: hi there'' @ [CHR 0x0A] @ ''Speaker B: bye''"
    by code_simp
  from transcribeRecording_segments[OF h, of "constructor ''key''"] v show ?thesis by simp
qed

text \<open>
  C1 as stated fails for a word whose punctuated form is present and empty: the code
  takes the raw form \<open>hi\<close>, the claim's transcript has the empty punctuated form.
\<close>

theorem transcribeRecording_present_counterexample:
  "fst (transcribeRecording (constructor ''key'')
          (okResponse None (Some [\<lparr>word = ''hi'', punctuated_word = Some [], speaker = Some 0\<rparr>])))
     = Inr ''Speaker A: hi''
   \<and> spec_transcript wordSpeaker presentText
        [\<lparr>word = ''hi'', punctuated_word = Some [], speaker = Some 0\<rparr>] = ''Speaker A: ''"
  by code_simp

text \<open>
  C2. \<open>handleMessage\<close> emits an event exactly when the payload parses, is not typed
  Metadata, has a first alternative of its channel with non-empty transcript text, and
  is marked final. The event then carries the text, the allocator's label for the
  speaker id of the first word (0 without one), that id, the confidence, the current
  time and finality true. A Metadata payload emits nothing and changes nothing.
\<close>

theorem handleMessage_emits:
  "(fst (handleMessage JSON_parse now s data) \<noteq> [] \<longleftrightarrow>
      (\<exists>p ch a as t. JSON_parse data = Some p \<and> msg_type p \<noteq> Some ''Metadata''
          \<and> channel p = Some ch \<and> alternatives ch = Some (a # as)
          \<and> transcript a = Some t \<and> t \<noteq> [] \<and> is_final p = Some True))
   \<and> (\<forall>p ch a as t. JSON_parse data = Some p \<and> msg_type p \<noteq> Some ''Metadata''
          \<and> channel p = Some ch \<and> alternatives ch = Some (a # as)
          \<and> transcript a = Some t \<and> t \<noteq> [] \<and> is_final p = Some True \<longrightarrow>
        handleMessage JSON_parse now s data =
          ([(''transcript'',
             \<lparr> ev_text = t, ev_speaker = fst (getSpeakerLabel s (spec_speakerId a)),
               ev_speakerId = spec_speakerId a, ev_confidence = confidence a,
               ev_timestamp = now, ev_is_final = True \<rparr>)],
           snd (getSpeakerLabel s (spec_speakerId a))))
   \<and> (\<forall>p. JSON_parse data = Some p \<and> msg_type p = Some ''Metadata'' \<longrightarrow>
        handleMessage JSON_parse now s data = ([], s))"
proof -
  have sid: "firstSpeaker (case words a of None \<Rightarrow> [] | Some l \<Rightarrow> l) = spec_speakerId a" for a
    by (simp add: firstSpeaker_def spec_speakerId_def wordSpeaker_def
          split: option.splits list.splits)
  have 1: "fst (handleMessage JSON_parse now s data) \<noteq> [] \<longleftrightarrow>
      (\<exists>p ch a as t. JSON_parse data = Some p \<and> msg_type p \<noteq> Some ''Metadata''
          \<and> channel p = Some ch \<and> alternatives ch = Some (a # as)
          \<and> transcript a = Some t \<and> t \<noteq> [] \<and> is_final p = Some True)"
    by (auto simp: handleMessage_def firstAlternative_def Let_def split_beta
          split: option.splits list.splits if_splits)
  have 2: "handleMessage JSON_parse now s data =
          ([(''transcript'',
             \<lparr> ev_text = t, ev_speaker = fst (getSpeakerLabel s (spec_speakerId a)),
               ev_speakerId = spec_speakerId a, ev_confidence = confidence a,
               ev_timestamp = now, ev_is_final = True \<rparr>)],
           snd (getSpeakerLabel s (spec_speakerId a)))"
    if "JSON_parse data = Some p" "msg_type p \<noteq> Some ''Metadata''"
       "channel p = Some ch" "alternatives ch = Some (a # as)"
       "transcript a = Some t" "t \<noteq> []" "is_final p = Some True" for p ch a as t
    using that by (simp add: handleMessage_def firstAlternative_def Let_def split_beta sid)
  have 3: "handleMessage JSON_parse now s data = ([], s)"
    if "JSON_parse data = Some p" "msg_type p = Some ''Metadata''" for p
    using that by (simp add: handleMessage_def)
  from 1 2 3 show ?thesis by blast
qed

text \<open>
  The example of the specification: transcript hello, confidence 0.9, one word of
  speaker 1.
\<close>

theorem handleMessage_emits_witness:
  "handleMessage
     (\<lambda>_. Some \<lparr> msg_type = Some ''Results'',
                  channel = Some \<lparr> alternatives = Some
                    [\<lparr> transcript = Some ''hello'', confidence = Some (9 / 10),
                       words = Some [\<lparr> word = ''hello'', punctuated_word = None,
                                       speaker = Some 1 \<rparr>] \<rparr>] \<rparr>,
                  is_final = Some True \<rparr>)
     1700 (constructor ''key'') ''payload''
   = ([(''transcript'',
        \<lparr> ev_text = ''hello'', ev_speaker = ''Speaker A'', ev_speakerId = JNum 1,
          ev_confidence = Some (9 / 10), ev_timestamp = 1700, ev_is_final = True \<rparr>)],
      (constructor ''key'')\<lparr>speakerMap := fmupd ''1'' ''Speaker A'' fmempty\<rparr>)"
proof -
  let ?a = "\<lparr> transcript = Some ''hello'', confidence = Some (9 / 10),
                       words = Some [\<lparr> word = ''hello'', punctuated_word = None,
                                       speaker = Some 1 \<rparr>] \<rparr>"
  let ?ch = "\<lparr> alternatives = Some [?a] \<rparr>"
  let ?p = "\<lparr> msg_type = Some ''Results'', channel = Some ?ch, is_final = Some True \<rparr>"
  have g: "getSpeakerLabel (constructor ''key'') (JNum 1)
             = (''Speaker A'', (constructor ''key'')\<lparr>speakerMap := fmupd ''1'' ''Speaker A'' fmempty\<rparr>)"
    by (simp add: getSpeakerLabel_def constructor_def newLabel_def labels_def
          numberToString_def natToString.simps digit_def Let_def fcard_fempty)
  have i: "spec_speakerId ?a = JNum 1" by (simp add: spec_speakerId_def)
  from handleMessage_emits[of "\<lambda>_. Some ?p" 1700 "constructor ''key''" "''payload''"]
  have "handleMessage (\<lambda>_. Some ?p) 1700 (constructor ''key'') ''payload'' =
          ([(''transcript'',
             \<lparr> ev_text = ''hello'', ev_speaker = fst (getSpeakerLabel (constructor ''key'') (spec_speakerId ?a)),
               ev_speakerId = spec_speakerId ?a, ev_confidence = confidence ?a,
               ev_timestamp = 1700, ev_is_final = True \<rparr>)],
           snd (getSpeakerLabel (constructor ''key'') (spec_speakerId ?a)))"
    by simp
  then show ?thesis by (simp add: i g)
qed

text \<open>
  C3. From an empty table and for every sequence of speaker ids, the \<open>i\<close>-th distinct
  id in first-seen order (from 0) has the label Speaker A .. Speaker J for \<open>i < 10\<close>,
  the 11th distinct id has the label Speaker 10, every call returns the label of its
  id, and ids to labels is a bijection from the first ten distinct ids to the first
  letters' labels.
\<close>

theorem allocator_first_seen:
  assumes e: "speakerMap s = fmempty"
  shows "(\<forall>i < length (first_seen ids). i < 10 \<longrightarrow>
            finalLabel s ids (first_seen ids ! i) = Some (''Speaker '' @ [''ABCDEFGHIJ'' ! i]))
       \<and> (10 < length (first_seen ids) \<longrightarrow>
            finalLabel s ids (first_seen ids ! 10) = Some ''Speaker 10'')
       \<and> map Some (fst (labelAll s (map JNum ids))) = map (finalLabel s ids) ids
       \<and> bij_betw (finalLabel s ids) (set (take 10 (first_seen ids)))
            ((\<lambda>i. Some (''Speaker '' @ [''ABCDEFGHIJ'' ! i])) `
               {i. i < min 10 (length (first_seen ids))})"
proof -
  let ?ds = "first_seen ids"
  let ?g = "\<lambda>i. Some (''Speaker '' @ [''ABCDEFGHIJ'' ! i])"
  have a: "finalLabel s ids (?ds ! i) = ?g i" if "i < length ?ds" "i < 10" for i
    using finalLabel_nth[OF e that(1)] that(2) by (simp add: spec_label_def)
  have ten: "spec_label 10 = ''Speaker 10''"
    by (simp add: spec_label_def natToString.simps digit_def)
  have b: "finalLabel s ids (?ds ! 10) = Some ''Speaker 10''" if "10 < length ?ds"
    using finalLabel_nth[OF e that] by (simp add: ten)
  have "fst (labelAll s (map JNum ids))
          = map (\<lambda>x. newLabel (index_of x (first_seen (map JNum ids)))) (map JNum ids)"
    using labelAll_table[OF e, of "map JNum ids"] by blast
  then have c: "map Some (fst (labelAll s (map JNum ids))) = map (finalLabel s ids) ids"
    by (simp add: finalLabel_rank[OF e] first_seen_map_inj[OF inj_JNum]
          index_of_map_inj[OF inj_JNum] spec_label_eq)
  let ?n = "min 10 (length ?ds)"
  have tk: "set (take 10 ?ds) = (\<lambda>i. ?ds ! i) ` {i. i < ?n}"
  proof -
    have "set (take 10 ?ds) = (\<lambda>i. take 10 ?ds ! i) ` {i. i < ?n}"
      by (simp add: set_conv_nth setcompr_eq_image min.commute)
    also have "\<dots> = (\<lambda>i. ?ds ! i) ` {i. i < ?n}"
      by (rule image_cong) auto
    finally show ?thesis .
  qed
  have img: "finalLabel s ids ` set (take 10 ?ds) = ?g ` {i. i < ?n}"
    unfolding tk image_image by (rule image_cong) (auto simp: a)
  have inj: "inj_on (finalLabel s ids) (set (take 10 ?ds))"
    unfolding tk
  proof (rule inj_onI, clarify)
    fix i j assume i: "i < ?n" and j: "j < ?n"
      and eq: "finalLabel s ids (?ds ! i) = finalLabel s ids (?ds ! j)"
    from i j eq have "?g i = ?g j" by (simp add: a)
    with i j have "i = j" by (simp add: letter_inj)
    then show "?ds ! i = ?ds ! j" by simp
  qed
  from inj img have d: "bij_betw (finalLabel s ids) (set (take 10 ?ds)) (?g ` {i. i < ?n})"
    by (simp add: bij_betw_def)
  from a b c d show ?thesis by blast
qed

text \<open>Thirteen calls with eleven distinct ids; the raw id 12 gets the index 10.\<close>

theorem allocator_first_seen_witness:
  "first_seen [5, 3, 5, 8, 1, 0, 2, 4, 6, 7, 9, 12, 3 :: int] = [5, 3, 8, 1, 0, 2, 4, 6, 7, 9, 12]
   \<and> finalLabel (constructor ''key'') [5, 3, 5, 8, 1, 0, 2, 4, 6, 7, 9, 12, 3] 5 = Some ''Speaker A''
   \<and> finalLabel (constructor ''key'') [5, 3, 5, 8, 1, 0, 2, 4, 6, 7, 9, 12, 3] 3 = Some ''Speaker B''
   \<and> finalLabel (constructor ''key'') [5, 3, 5, 8, 1, 0, 2, 4, 6, 7, 9, 12, 3] 9 = Some ''Speaker J''
   \<and> finalLabel (constructor ''key'') [5, 3, 5, 8, 1, 0, 2, 4, 6, 7, 9, 12, 3] 12 = Some ''Speaker 10''"
proof -
  let ?ids = "[5, 3, 5, 8, 1, 0, 2, 4, 6, 7, 9, 12, 3 :: int]"
  let ?s = "constructor ''key''"
  have e: "speakerMap ?s = fmempty" by (simp add: constructor_def)
  have fs: "first_seen ?ids = [5, 3, 8, 1, 0, 2, 4, 6, 7, 9, 12]"
    by (simp add: first_seen_def)
  note t = allocator_first_seen[OF e, of ?ids, unfolded fs]
  from t have a: "\<And>i. i < 11 \<Longrightarrow> i < 10 \<Longrightarrow>
      finalLabel ?s ?ids ([5, 3, 8, 1, 0, 2, 4, 6, 7, 9, 12] ! i) = Some (''Speaker '' @ [''ABCDEFGHIJ'' ! i])"
    and b: "finalLabel ?s ?ids ([5, 3, 8, 1, 0, 2, 4, 6, 7, 9, 12] ! 10) = Some ''Speaker 10''"
    by simp_all
  from a[of 0] a[of 1] a[of 9] b fs show ?thesis by simp
qed

text \<open>
  C4, as amended. \<open>close\<close> always empties the speaker table, so that the next label
  for the id 0 is Speaker A. A batch call empties the table only when the response
  carries a non-empty word list, before segmenting; on every other path it leaves the
  object as it was.
\<close>

theorem table_reset:
  "speakerMap (snd (close s)) = fmempty
   \<and> fst (getSpeakerLabel (snd (close s)) (JNum 0)) = ''Speaker A''
   \<and> (batchWords res \<noteq> [] \<longrightarrow>
        transcribeRecording s res = transcribeRecording (s\<lparr>speakerMap := fmempty\<rparr>) res)
   \<and> (batchWords res = [] \<longrightarrow> snd (transcribeRecording s res) = s)"
proof -
  have e: "speakerMap (snd (close s)) = fmempty" by (simp add: close_state)
  from e getSpeakerLabel_fresh_0[OF e] transcribe_reset[of res s] transcribe_no_words[of res s]
  show ?thesis by simp
qed

theorem table_reset_witness:
  "fst (getSpeakerLabel
          (snd (close ((constructor ''key'')\<lparr>socket := Some 4, isConnected := True,
                  speakerMap := fmupd ''0'' ''Speaker C'' fmempty\<rparr>))) (JNum 0)) = ''Speaker A''
   \<and> batchWords (okResponse None (Some [\<lparr>word = ''hi'', punctuated_word = None, speaker = Some 3\<rparr>])) \<noteq> []
   \<and> transcribeRecording ((constructor ''key'')\<lparr>speakerMap := fmupd ''3'' ''Speaker C'' fmempty\<rparr>)
        (okResponse None (Some [\<lparr>word = ''hi'', punctuated_word = None, speaker = Some 3\<rparr>]))
      = transcribeRecording (constructor ''key'')
        (okResponse None (Some [\<lparr>word = ''hi'', punctuated_word = None, speaker = Some 3\<rparr>]))
   \<and> batchWords (okResponse (Some ''hello world'') (Some [])) = []
   \<and> snd (transcribeRecording ((constructor ''key'')\<lparr>speakerMap := fmupd ''3'' ''Speaker C'' fmempty\<rparr>)
        (okResponse (Some ''hello world'') (Some [])))
      = (constructor ''key'')\<lparr>speakerMap := fmupd ''3'' ''Speaker C'' fmempty\<rparr>"
proof -
  let ?s = "(constructor ''key'')\<lparr>speakerMap := fmupd ''3'' ''Speaker C'' fmempty\<rparr>"
  let ?r = "okResponse None (Some [\<lparr>word = ''hi'', punctuated_word = None, speaker = Some 3\<rparr>])"
  let ?q = "okResponse (Some ''hello world'') (Some [])"
  have b1: "batchWords ?r \<noteq> []"
    by (simp add: batchWords_def okResponse_def batchAlternatives_def firstChannel_def)
  have b2: "batchWords ?q = []"
    by (simp add: batchWords_def okResponse_def batchAlternatives_def firstChannel_def)
  have c: "?s\<lparr>speakerMap := fmempty\<rparr> = constructor ''key''"
    by (simp add: constructor_def)
  from table_reset[of "(constructor ''key'')\<lparr>socket := Some 4, isConnected := True,
                  speakerMap := fmupd ''0'' ''Speaker C'' fmempty\<rparr>" ?r]
  have 1: "fst (getSpeakerLabel
          (snd (close ((constructor ''key'')\<lparr>socket := Some 4, isConnected := True,
                  speakerMap := fmupd ''0'' ''Speaker C'' fmempty\<rparr>))) (JNum 0)) = ''Speaker A''"
    by blast
  from table_reset[of ?s ?r] b1 c
  have 2: "transcribeRecording ?s ?r = transcribeRecording (constructor ''key'') ?r"
    by simp
  from table_reset[of ?s ?q] b2
  have 3: "snd (transcribeRecording ?s ?q) = ?s" by blast
  from 1 b1 2 b2 3 show ?thesis by blast
qed

text \<open>
  C4 as stated fails: a batch call whose response has no alternative returns the empty
  transcript and keeps the table, and the next new id gets Speaker B.
\<close>

theorem transcribeRecording_keeps_table_counterexample:
  "speakerMap (snd (transcribeRecording
       ((constructor ''key'')\<lparr>speakerMap := fmupd ''7'' ''Speaker A'' fmempty\<rparr>)
       \<lparr> ok = True, status = 200, res_text = [], res_json = Some \<lparr> results = None \<rparr> \<rparr>))
     = fmupd ''7'' ''Speaker A'' fmempty
   \<and> fmupd ''7'' ''Speaker A'' fmempty \<noteq> (fmempty :: (string, string) fmap)
   \<and> fst (getSpeakerLabel (snd (transcribeRecording
       ((constructor ''key'')\<lparr>speakerMap := fmupd ''7'' ''Speaker A'' fmempty\<rparr>)
       \<lparr> ok = True, status = 200, res_text = [], res_json = Some \<lparr> results = None \<rparr> \<rparr>))
       (JNum 0)) = ''Speaker B''"
proof -
  have ne: "fmupd ''7'' ''Speaker A'' fmempty \<noteq> (fmempty :: (string, string) fmap)"
  proof
    assume "fmupd ''7'' ''Speaker A'' fmempty = (fmempty :: (string, string) fmap)"
    then have "fmlookup (fmupd ''7'' ''Speaker A'' fmempty) ''7'' = fmlookup (fmempty :: (string, string) fmap) ''7''"
      by simp
    then show False by simp
  qed
  have t: "transcribeRecording
       ((constructor ''key'')\<lparr>speakerMap := fmupd ''7'' ''Speaker A'' fmempty\<rparr>)
       \<lparr> ok = True, status = 200, res_text = [], res_json = Some \<lparr> results = None \<rparr> \<rparr>
      = (Inr [], (constructor ''key'')\<lparr>speakerMap := fmupd ''7'' ''Speaker A'' fmempty\<rparr>)"
    by (simp add: transcribeRecording_def batchAlternatives_def firstChannel_def)
  have g: "fst (getSpeakerLabel ((constructor ''key'')\<lparr>speakerMap := fmupd ''7'' ''Speaker A'' fmempty\<rparr>) (JNum 0))
            = ''Speaker B''"
    by (simp add: getSpeakerLabel_def constructor_def newLabel_def labels_def
          numberToString_def natToString.simps digit_def Let_def fcard_finsert_if fcard_fempty)
  from ne t g show ?thesis by simp
qed

text \<open>
  C5. A close event with a code other than 1000 while the counter is below the ceiling
  sets one timer of 2000 ms times the incremented counter; three abnormal closures
  from counter 0 and ceiling 3 set timers of 2000, 4000 and 6000 ms; after three or
  more abnormal closures in a row with ceiling 3 the service is disconnected and a
  further abnormal closure sets no timer and changes nothing.
\<close>

theorem reconnect_policy:
  "(c \<noteq> 1000 \<and> reconnectAttempts s < maxReconnectAttempts s \<longrightarrow>
      onclose s c = ([2000 * (reconnectAttempts s + 1)],
                     s\<lparr>isConnected := False, reconnectAttempts := reconnectAttempts s + 1\<rparr>))
   \<and> (maxReconnectAttempts s = 3 \<and> reconnectAttempts s = 0
        \<and> c1 \<noteq> 1000 \<and> c2 \<noteq> 1000 \<and> c3 \<noteq> 1000 \<longrightarrow>
      fst (oncloseAll s [c1, c2, c3]) = [2000, 4000, 6000])
   \<and> (maxReconnectAttempts s = 3 \<and> 3 \<le> length cs \<and> (\<forall>x\<in>set cs. x \<noteq> 1000) \<and> c \<noteq> 1000 \<longrightarrow>
      \<not> isConnected (snd (oncloseAll s cs))
      \<and> onclose (snd (oncloseAll s cs)) c = ([], snd (oncloseAll s cs)))"
proof -
  have 1: "onclose s c = ([2000 * (reconnectAttempts s + 1)],
                     s\<lparr>isConnected := False, reconnectAttempts := reconnectAttempts s + 1\<rparr>)"
    if "c \<noteq> 1000" "reconnectAttempts s < maxReconnectAttempts s"
    using that by (rule onclose_abnormal)
  have 2: "fst (oncloseAll s [c1, c2, c3]) = [2000, 4000, 6000]"
    if "maxReconnectAttempts s = 3" "reconnectAttempts s = 0"
       "c1 \<noteq> 1000" "c2 \<noteq> 1000" "c3 \<noteq> 1000"
    using that by (simp add: onclose_def attemptReconnect_def Let_def)
  have 3: "\<not> isConnected (snd (oncloseAll s cs))
      \<and> onclose (snd (oncloseAll s cs)) c = ([], snd (oncloseAll s cs))"
    if m: "maxReconnectAttempts s = 3" and l: "3 \<le> length cs"
      and a: "\<forall>x\<in>set cs. x \<noteq> 1000" for cs
  proof -
    let ?s = "snd (oncloseAll s cs)"
    from l have ne: "cs \<noteq> []" by auto
    then have d: "\<not> isConnected ?s" by (rule oncloseAll_disconnected)
    from oncloseAll_attempts[OF a, of s] m l
    have "3 \<le> reconnectAttempts ?s" by (simp add: min_def split: if_splits)
    then have "maxReconnectAttempts ?s \<le> reconnectAttempts ?s"
      by (simp add: oncloseAll_max m)
    from onclose_full[OF this, of c] d show ?thesis by simp
  qed
  from 1 2 3 show ?thesis by blast
qed

theorem reconnect_policy_witness:
  "fst (onclose ((constructor ''key'')\<lparr>isConnected := True\<rparr>) 1006) = [2000]
   \<and> reconnectAttempts (snd (onclose ((constructor ''key'')\<lparr>isConnected := True\<rparr>) 1006)) = 1
   \<and> fst (oncloseAll ((constructor ''key'')\<lparr>isConnected := True\<rparr>) [1006, 1006, 1011])
     = [2000, 4000, 6000]
   \<and> \<not> isConnected (snd (oncloseAll ((constructor ''key'')\<lparr>isConnected := True\<rparr>) [1006, 1006, 1011]))
   \<and> fst (onclose (snd (oncloseAll ((constructor ''key'')\<lparr>isConnected := True\<rparr>)
                           [1006, 1006, 1011])) 1006) = []"
proof -
  let ?s = "(constructor ''key'')\<lparr>isConnected := True\<rparr>"
  let ?cs = "[1006, 1006, 1011] :: nat list"
  have m: "maxReconnectAttempts ?s = 3" "reconnectAttempts ?s = 0"
    by (simp_all add: constructor_def)
  have n: "(1006::nat) \<noteq> 1000" "(1011::nat) \<noteq> 1000" "3 \<le> length ?cs"
    "\<forall>x\<in>set ?cs. x \<noteq> 1000" "reconnectAttempts ?s < maxReconnectAttempts ?s"
    by (simp_all add: constructor_def)
  note p = reconnect_policy[of 1006 ?s 1006 1006 1011 ?cs]
  from p n have 1: "onclose ?s 1006 = ([2000 * (reconnectAttempts ?s + 1)],
                     ?s\<lparr>isConnected := False, reconnectAttempts := reconnectAttempts ?s + 1\<rparr>)"
    by blast
  from p m n have 2: "fst (oncloseAll ?s ?cs) = [2000, 4000, 6000]"
    by blast
  from p m n have 3: "\<not> isConnected (snd (oncloseAll ?s ?cs))
      \<and> onclose (snd (oncloseAll ?s ?cs)) 1006 = ([], snd (oncloseAll ?s ?cs))"
    by blast
  from 1 have w1: "fst (onclose ?s 1006) = [2000]"
    and w2: "reconnectAttempts (snd (onclose ?s 1006)) = 1"
    by (simp_all only: fst_conv snd_conv m) simp_all
  from 3 have w3: "fst (onclose (snd (oncloseAll ?s ?cs)) 1006) = []"
    by (simp only: fst_conv)
  from w1 w2 2 3 w3 show ?thesis by blast
qed

text \<open>
  C6. For a response that is not ok, \<open>transcribeRecording\<close> throws an error whose
  message is \<open>Deepgram: \<close>, the status code in decimal, a space and the body text; no
  transcript is returned and the object is unchanged.
\<close>

theorem transcribeRecording_http_error:
  "\<not> ok res \<Longrightarrow>
     transcribeRecording s res
       = (Inl (Error (''Deepgram: '' @ natToString (status res) @ '' '' @ res_text res)), s)
     \<and> (\<forall>t. fst (transcribeRecording s res) \<noteq> Inr t)"
  by (simp add: transcribeRecording_def)

theorem transcribeRecording_http_error_witness:
  "transcribeRecording (constructor ''key'')
     \<lparr> ok = False, status = 401, res_text = ''Invalid credentials'', res_json = None \<rparr>
   = (Inl (Error ''Deepgram: 401 Invalid credentials''), constructor ''key'')"
proof -
  let ?r = "\<lparr> ok = False, status = 401, res_text = ''Invalid credentials'', res_json = None \<rparr>"
  have h: "\<not> ok ?r" by simp
  have v: "natToString 401 = ''401''" by code_simp
  from transcribeRecording_http_error[OF h, of "constructor ''key''"] v
  show ?thesis by simp
qed

text \<open>
  C7. For a successful response without a first alternative, \<open>transcribeRecording\<close>
  returns the empty string; for one whose first alternative has no word list or an
  empty one, it returns that alternative's transcript unchanged.
\<close>

theorem transcribeRecording_flat:
  "(ok res \<and> res_json res = Some data
      \<and> (batchAlternatives data = None \<or> batchAlternatives data = Some []) \<longrightarrow>
      transcribeRecording s res = (Inr [], s))
   \<and> (ok res \<and> res_json res = Some data \<and> batchAlternatives data = Some (a # as)
      \<and> (words a = None \<or> words a = Some []) \<and> transcript a = Some t \<longrightarrow>
      transcribeRecording s res = (Inr t, s))"
  by (auto simp: transcribeRecording_def)

theorem transcribeRecording_flat_witness:
  "transcribeRecording (constructor ''key'')
     \<lparr> ok = True, status = 200, res_text = [],
       res_json = Some \<lparr> results = Some \<lparr> channels = Some [\<lparr> alternatives = Some [] \<rparr>] \<rparr> \<rparr> \<rparr>
     = (Inr [], constructor ''key'')
   \<and> transcribeRecording (constructor ''key'') (okResponse (Some ''hello world'') (Some []))
     = (Inr ''hello world'', constructor ''key'')"
proof -
  let ?e = "\<lparr> results = Some \<lparr> channels = Some [\<lparr> alternatives = Some [] \<rparr>] \<rparr> \<rparr>"
  let ?q = "\<lparr> ok = True, status = 200, res_text = [], res_json = Some ?e \<rparr>"
  let ?a = "\<lparr> transcript = Some ''hello world'', confidence = None, words = Some [] \<rparr>"
  let ?d = "\<lparr> results = Some \<lparr> channels = Some [\<lparr> alternatives = Some [?a] \<rparr>] \<rparr> \<rparr>"
  let ?r = "okResponse (Some ''hello world'') (Some [])"
  have h0: "ok ?q" "res_json ?q = Some ?e" "batchAlternatives ?e = Some []"
    by (simp_all add: batchAlternatives_def firstChannel_def)
  have h: "ok ?r" "res_json ?r = Some ?d" "batchAlternatives ?d = Some (?a # [])"
    "words ?a = Some []" "transcript ?a = Some ''hello world''"
    by (simp_all add: okResponse_def batchAlternatives_def firstChannel_def)
  from transcribeRecording_flat[of ?q ?e "constructor ''key''"] h0
  have 1: "transcribeRecording (constructor ''key'') ?q = (Inr [], constructor ''key'')"
    by blast
  from transcribeRecording_flat[of ?r ?d "constructor ''key''" ?a "[]" "''hello world''"] h
  have 2: "transcribeRecording (constructor ''key'') ?r = (Inr ''hello world'', constructor ''key'')"
    by blast
  from 1 2 show ?thesis by blast
qed

text \<open>
  C8. For every speaker id and every table, a second call of \<open>getSpeakerLabel\<close> with the
  same id returns the label of the first call and leaves the table as the first call
  left it.
\<close>

theorem getSpeakerLabel_idempotent:
  "getSpeakerLabel (snd (getSpeakerLabel s i)) i
     = (fst (getSpeakerLabel s i), snd (getSpeakerLabel s i))"
  by (auto simp: getSpeakerLabel_def Let_def newLabel_nonempty split: option.splits)

text \<open>
  C9. \<open>close\<close> changes the socket handle, the connection status and the speaker table,
  and nothing else: the credential, the reconnect counter, its ceiling and the
  listener table are as before.
\<close>

theorem close_frame:
  "snd (close s) = s\<lparr>socket := None, isConnected := False, speakerMap := fmempty\<rparr>
   \<and> apiKey (snd (close s)) = apiKey s
   \<and> reconnectAttempts (snd (close s)) = reconnectAttempts s
   \<and> maxReconnectAttempts (snd (close s)) = maxReconnectAttempts s
   \<and> listeners (snd (close s)) = listeners s"
  by (simp add: close_state)

text \<open>
  C10. A word without a speaker field counts as a word of speaker 0: the batch result
  and table are those of the same words with the id 0 filled in, and a streaming
  result whose first word has no speaker field emits the speaker id 0 and its label.
\<close>

theorem missing_speaker_is_zero:
  "(batchWords res = ws \<and> batchWords res' = map speakerZero ws \<and> ws \<noteq> [] \<longrightarrow>
      transcribeRecording s res' = transcribeRecording s res)
   \<and> (speaker w = None \<longrightarrow> wordSpeaker w = JNum 0)
   \<and> (JSON_parse data = Some p \<and> msg_type p \<noteq> Some ''Metadata''
        \<and> channel p = Some ch \<and> alternatives ch = Some (a # as)
        \<and> transcript a = Some t \<and> t \<noteq> [] \<and> is_final p = Some True
        \<and> words a = Some (w # rest) \<and> speaker w = None \<longrightarrow>
      handleMessage JSON_parse now s data =
        ([(''transcript'',
           \<lparr> ev_text = t, ev_speaker = fst (getSpeakerLabel s (JNum 0)),
             ev_speakerId = JNum 0, ev_confidence = confidence a,
             ev_timestamp = now, ev_is_final = True \<rparr>)],
         snd (getSpeakerLabel s (JNum 0))))"
proof -
  have 1: "transcribeRecording s res' = transcribeRecording s res"
    if "batchWords res = ws" "batchWords res' = map speakerZero ws" "ws \<noteq> []"
    using that by (rule transcribe_speakerZero)
  have 2: "wordSpeaker w = JNum 0" if "speaker w = None"
    using that by (simp add: wordSpeaker_def)
  have 3: "handleMessage JSON_parse now s data =
        ([(''transcript'',
           \<lparr> ev_text = t, ev_speaker = fst (getSpeakerLabel s (JNum 0)),
             ev_speakerId = JNum 0, ev_confidence = confidence a,
             ev_timestamp = now, ev_is_final = True \<rparr>)],
         snd (getSpeakerLabel s (JNum 0)))"
    if "JSON_parse data = Some p" "msg_type p \<noteq> Some ''Metadata''"
       "channel p = Some ch" "alternatives ch = Some (a # as)"
       "transcript a = Some t" "t \<noteq> []" "is_final p = Some True"
       "words a = Some (w # rest)" "speaker w = None"
    using that
    by (simp add: handleMessage_def firstAlternative_def firstSpeaker_def wordSpeaker_def
          Let_def split_beta)
  from 1 2 3 show ?thesis by blast
qed

theorem missing_speaker_is_zero_witness:
  "fst (transcribeRecording (constructor ''key'')
         (okResponse None (Some [\<lparr>word = ''a'', punctuated_word = None, speaker = None\<rparr>,
                                 \<lparr>word = ''b'', punctuated_word = None, speaker = Some 0\<rparr>,
                                 \<lparr>word = ''c'', punctuated_word = None, speaker = Some 2\<rparr>])))
     = Inr (''Speaker A: a b'' @ [CHR 0x0A] @ ''Speaker B: c'')
   \<and> transcribeRecording (constructor ''key'')
         (okResponse None (Some [\<lparr>word = ''a'', punctuated_word = None, speaker = None\<rparr>,
                                 \<lparr>word = ''b'', punctuated_word = None, speaker = Some 0\<rparr>,
                                 \<lparr>word = ''c'', punctuated_word = None, speaker = Some 2\<rparr>]))
     = transcribeRecording (constructor ''key'')
         (okResponse None (Some [\<lparr>word = ''a'', punctuated_word = None, speaker = Some 0\<rparr>,
                                 \<lparr>word = ''b'', punctuated_word = None, speaker = Some 0\<rparr>,
                                 \<lparr>word = ''c'', punctuated_word = None, speaker = Some 2\<rparr>]))
   \<and> handleMessage
        (\<lambda>_. Some \<lparr> msg_type = None,
                     channel = Some \<lparr> alternatives = Some
                       [\<lparr> transcript = Some ''hello'', confidence = None,
                          words = Some [\<lparr> word = ''hello'', punctuated_word = None,
                                          speaker = None \<rparr>] \<rparr>] \<rparr>,
                     is_final = Some True \<rparr>)
        1700 (constructor ''key'') ''payload''
      = ([(''transcript'',
           \<lparr> ev_text = ''hello'', ev_speaker = ''Speaker A'', ev_speakerId = JNum 0,
             ev_confidence = None, ev_timestamp = 1700, ev_is_final = True \<rparr>)],
         (constructor ''key'')\<lparr>speakerMap := fmupd ''0'' ''Speaker A'' fmempty\<rparr>)"
proof -
  let ?ws = "[\<lparr>word = ''a'', punctuated_word = None, speaker = None\<rparr>,
              \<lparr>word = ''b'', punctuated_word = None, speaker = Some 0\<rparr>,
              \<lparr>word = ''c'', punctuated_word = None, speaker = Some 2\<rparr>]"
  let ?zs = "[\<lparr>word = ''a'', punctuated_word = None, speaker = Some 0\<rparr>,
              \<lparr>word = ''b'', punctuated_word = None, speaker = Some 0\<rparr>,
              \<lparr>word = ''c'', punctuated_word = None, speaker = Some 2\<rparr>]"
  let ?s = "constructor ''key''"
  let ?w = "\<lparr> word = ''hello'', punctuated_word = None, speaker = None \<rparr>"
  let ?a = "\<lparr> transcript = Some ''hello'', confidence = None, words = Some [?w] \<rparr>"
  let ?ch = "\<lparr> alternatives = Some [?a] \<rparr>"
  let ?p = "\<lparr> msg_type = None, channel = Some ?ch, is_final = Some True \<rparr>"
  have v: "fst (transcribeRecording ?s (okResponse None (Some ?ws)))
             = Inr (''Speaker A: a b'' @ [CHR 0x0A] @ ''Speaker B: c'')"
    by code_simp
  have z: "map speakerZero ?ws = ?zs" by (simp add: speakerZero_def)
  have b: "batchWords (okResponse None (Some ?ws)) = ?ws"
    "batchWords (okResponse None (Some ?zs)) = map speakerZero ?ws" "?ws \<noteq> []"
    by (simp_all add: batchWords_def okResponse_def batchAlternatives_def firstChannel_def
          speakerZero_def)
  note m = missing_speaker_is_zero[of "okResponse None (Some ?ws)" ?ws
      "okResponse None (Some ?zs)" ?s ?w "\<lambda>_. Some ?p" "''payload''" ?p ?ch ?a "[]"
      "''hello''" "[]" 1700]
  from m b have 1: "transcribeRecording ?s (okResponse None (Some ?zs))
      = transcribeRecording ?s (okResponse None (Some ?ws))"
    by blast
  have e: "speakerMap ?s = fmempty" by (simp add: constructor_def)
  from m have "handleMessage (\<lambda>_. Some ?p) 1700 ?s ''payload'' =
        ([(''transcript'',
           \<lparr> ev_text = ''hello'', ev_speaker = fst (getSpeakerLabel ?s (JNum 0)),
             ev_speakerId = JNum 0, ev_confidence = confidence ?a,
             ev_timestamp = 1700, ev_is_final = True \<rparr>)],
         snd (getSpeakerLabel ?s (JNum 0)))"
    by simp
  then have 2: "handleMessage (\<lambda>_. Some ?p) 1700 ?s ''payload''
      = ([(''transcript'',
           \<lparr> ev_text = ''hello'', ev_speaker = ''Speaker A'', ev_speakerId = JNum 0,
             ev_confidence = None, ev_timestamp = 1700, ev_is_final = True \<rparr>)],
         ?s\<lparr>speakerMap := fmupd ''0'' ''Speaker A'' fmempty\<rparr>)"
    by (simp add: getSpeakerLabel_fresh_0[OF e])
  from v 1 2 show ?thesis by simp
qed

end
